theory Spec2Isabelle
  imports Complex_Main "HOL-Library.Sublist" "HOL-Library.Finite_Map"
begin

section \<open>Python strings\<close>

text \<open>
  A Python \<open>str\<close> is modelled as a \<open>string\<close> (a list of \<open>char\<close>): one \<open>char\<close> per
  code point, for the code points below 256. \<open>isspace\<close> is \<open>str.isspace\<close> of Python 3 on that
  range: tab, line feed, vertical tab, form feed, carriage return, the four separators
  \<open>0x1c\<close> .. \<open>0x1f\<close>, the space, \<open>0x85\<close> and \<open>0xa0\<close>.
\<close>

definition isspace :: "char \<Rightarrow> bool" where
  "isspace c = (of_char c \<in> {9, 10, 11, 12, 13, 28, 29, 30, 31, 32, 133, 160 :: nat})"

text \<open>\<open>s.strip()\<close>: the whitespace at both ends is removed.\<close>

definition strip :: "string \<Rightarrow> string" where
  "strip s = rev (dropWhile isspace (rev (dropWhile isspace s)))"

text \<open>\<open>s.startswith(p)\<close> is \<open>prefix p s\<close> and \<open>s.endswith(p)\<close> is \<open>suffix p s\<close>.\<close>

text \<open>
  \<open>x.replace(old, new)\<close> for a non-empty \<open>old\<close>: the occurrences of \<open>old\<close> are replaced from
  left to right, without overlap. (The source only calls it with an \<open>old\<close> that starts with
  \<open><\<close>; for an empty \<open>old\<close> this model returns \<open>x\<close>.)
\<close>

fun replace :: "string \<Rightarrow> string \<Rightarrow> string \<Rightarrow> string" where
  "replace old new [] = []"
| "replace old new (c # cs) =
     (if old \<noteq> [] \<and> prefix old (c # cs)
      then new @ replace old new (drop (length old) (c # cs))
      else c # replace old new cs)"

text \<open>\<open>s.split(sep)\<close> for a separator of one character: \<open>''''.split('/')\<close> is \<open>['''']\<close>.\<close>

fun split :: "char \<Rightarrow> string \<Rightarrow> string list" where
  "split sep [] = [[]]"
| "split sep (c # cs) =
     (if c = sep then [] # split sep cs
      else (case split sep cs of
              [] \<Rightarrow> [[c]]
            | w # ws \<Rightarrow> (c # w) # ws))"

section \<open>The tag extractor\<close>

text \<open>
  \<open>_get_tag_value(x, i)\<close>. Its three \<open>while\<close> loops run an index \<open>i\<close> over \<open>x\<close>; each is a
  recursive function of the index, and stops when \<open>i\<close> reaches \<open>len(x)\<close>.
\<close>

text \<open>\<open>while i < len(x) and x[i] != '<': i += 1\<close>\<close>

function skip_decl :: "string \<Rightarrow> nat \<Rightarrow> nat" where
  "skip_decl x i =
     (if i < length x \<and> x ! i \<noteq> CHR ''<'' then skip_decl x (i + 1) else i)"
  by pat_completeness auto
termination
  by (relation "measure (\<lambda>(x, i). length x - i)") auto

declare skip_decl.simps [simp del]

text \<open>
  The loop that reads a tag name up to \<open>>\<close>, dropping everything from the first space on:
  it returns the index of the \<open>>\<close> (or \<open>len(x)\<close>) and the tag.
\<close>

function read_tag :: "string \<Rightarrow> nat \<Rightarrow> bool \<Rightarrow> string \<Rightarrow> nat \<times> string" where
  "read_tag x i in_attr tag =
     (if i < length x \<and> x ! i \<noteq> CHR ''>''
      then (let in_attr' = (if x ! i = CHR '' '' then True else in_attr);
                tag' = (if \<not> in_attr' then tag @ [x ! i] else tag)
            in read_tag x (i + 1) in_attr' tag')
      else (i, tag))"
  by pat_completeness auto
termination
  by (relation "measure (\<lambda>(x, i, a, t). length x - i)") auto

declare read_tag.simps [simp del]

text \<open>
  The loop that collects the value up to the first closing tag. On a \<open>>\<close> that ends
  \<open></tag>\<close> it cuts \<open>len(tag) + 2\<close> characters off the value and breaks, with \<open>i\<close> on that
  \<open>>\<close>; otherwise it ends with \<open>i = len(x)\<close>.
\<close>

function read_value :: "string \<Rightarrow> string \<Rightarrow> nat \<Rightarrow> string \<Rightarrow> string \<times> nat" where
  "read_value x tag i val =
     (if i < length x
      then (let val' = val @ [x ! i]
            in if x ! i = CHR ''>'' \<and> suffix (''</'' @ tag @ ''>'') val'
               then (take (length val' - (length tag + 2)) val', i)
               else read_value x tag (i + 1) val')
      else (val, i))"
  by pat_completeness auto
termination
  by (relation "measure (\<lambda>(x, t, i, v). length x - i)") auto

declare read_value.simps [simp del]

text \<open>
  \<open>_get_tag_value\<close> returns the triple (tag, value, rest). \<open>value[:-1]\<close> is \<open>butlast\<close>, and
  \<open>x[i + 1:]\<close> is \<open>drop (i + 1) x\<close>.
\<close>

definition get_tag_value :: "string \<Rightarrow> nat \<Rightarrow> string \<times> string \<times> string" where
  "get_tag_value x0 i0 =
     (let x = strip x0;
          i = (if prefix ''<?'' (drop i0 x) then skip_decl x (i0 + 2) else i0)
      in if prefix ''</'' (drop i x)
         then (case read_tag x (i + 2) False [] of
                 (j, tag) \<Rightarrow> (strip tag, [], drop (j + 1) x))
         else if \<not> prefix ''<'' (drop i x)
         then ([], drop i x, [])
         else (case read_tag x (i + 1) False [] of
                 (j, tag) \<Rightarrow>
                   (let k = j + 1;
                        empty_elmt = ''<'' @ tag @ '' />'';
                        closed_elmt = ''<'' @ tag @ ''>None</'' @ tag @ ''>'';
                        x' = (if prefix empty_elmt x then replace empty_elmt closed_elmt x else x)
                    in (case read_value x' tag k [] of
                          (val, e) \<Rightarrow> (strip tag, butlast val, drop (e + 1) x')))))"

section \<open>Termination of the parser\<close>

text \<open>
  The parser below recurses on the value and on the rest that \<open>get_tag_value\<close> returns. The
  rest can be longer than the input, since replacing a self-closing tag makes the text
  longer; but every replacement removes a space, and nothing else adds one. So the number of
  spaces, then the length, decreases.
\<close>

definition spaces :: "string \<Rightarrow> nat" where
  "spaces s = length (filter (\<lambda>c. c = CHR '' '') s)"

lemma spaces_simps [simp]:
  "spaces [] = 0"
  "spaces (c # cs) = (if c = CHR '' '' then Suc (spaces cs) else spaces cs)"
  "spaces (xs @ ys) = spaces xs + spaces ys"
  by (simp_all add: spaces_def)

lemma spaces_rev [simp]: "spaces (rev s) = spaces s"
  by (induction s) auto

lemma spaces_dropWhile: "spaces (dropWhile P s) \<le> spaces s"
  by (induction s) auto

lemma spaces_drop: "spaces (drop n s) \<le> spaces s"
  by (metis append_take_drop_id le_add2 spaces_simps(3))

lemma spaces_take: "spaces (take n s) \<le> spaces s"
  by (metis append_take_drop_id le_add1 spaces_simps(3))

lemma spaces_butlast: "spaces (butlast s) \<le> spaces s"
  by (simp add: butlast_conv_take spaces_take)

lemma spaces_strip: "spaces (strip s) \<le> spaces s"
  unfolding strip_def
  by (metis le_trans spaces_dropWhile spaces_rev)

lemma length_strip: "length (strip s) \<le> length s"
  unfolding strip_def
  by (metis le_trans length_dropWhile_le length_rev)

lemma strip_Nil [simp]: "strip [] = []"
  by (simp add: strip_def)

lemma dropWhile_fixed: "xs = [] \<or> \<not> P (hd xs) \<Longrightarrow> dropWhile P xs = xs"
  by (cases xs) auto

lemma strip_idem [simp]: "strip (strip s) = strip s"
proof -
  define a where "a = dropWhile isspace s"
  define b where "b = rev (dropWhile isspace (rev a))"
  have a: "a = [] \<or> \<not> isspace (hd a)"
    unfolding a_def by (metis hd_dropWhile)
  have "\<exists>t. a = b @ t"
    unfolding b_def
    by (metis rev_append rev_rev_ident takeWhile_dropWhile_id)
  then obtain t where t: "a = b @ t" by blast
  have "b = [] \<or> \<not> isspace (hd b)"
    using a t by (cases b) auto
  then have 1: "dropWhile isspace b = b" by (rule dropWhile_fixed)
  have 2: "dropWhile isspace (rev b) = rev b"
    unfolding b_def by (simp add: dropWhile_idem)
  have "strip s = b" by (simp add: strip_def a_def b_def)
  moreover have "strip b = b" by (simp add: strip_def 1 2)
  ultimately show ?thesis by simp
qed

lemma spaces_replace_le:
  "spaces new = 0 \<Longrightarrow> spaces (replace old new x) \<le> spaces x"
proof (induction old new x rule: replace.induct)
  case (1 old new)
  then show ?case by simp
next
  case (2 old new c cs)
  show ?case
  proof (cases "old \<noteq> [] \<and> prefix old (c # cs)")
    case True
    have "spaces (replace old new (drop (length old) (c # cs))) \<le> spaces (drop (length old) (c # cs))"
      using 2 True by blast
    also have "\<dots> \<le> spaces (c # cs)" by (rule spaces_drop)
    finally show ?thesis using True 2(3) by simp
  next
    case False
    then have "spaces (replace old new cs) \<le> spaces cs" using 2 by blast
    then show ?thesis using False by auto
  qed
qed

lemma spaces_replace_less:
  assumes "spaces new = 0" "0 < spaces old" "prefix old x"
  shows "spaces (replace old new x) < spaces x"
proof -
  from assms(2) have ne: "old \<noteq> []" by auto
  from assms(3) obtain r where x: "x = old @ r" by (auto simp: prefix_def)
  with ne obtain c cs where c: "x = c # cs" by (metis append_is_Nil_conv neq_Nil_conv)
  have "replace old new (c # cs) = new @ replace old new (drop (length old) (c # cs))"
    using ne assms(3) c by simp
  moreover have "drop (length old) x = r" using x by simp
  ultimately have "replace old new x = new @ replace old new r"
    using c by simp
  then have "spaces (replace old new x) = spaces (replace old new r)"
    using assms(1) by simp
  also have "\<dots> \<le> spaces r" using assms(1) by (rule spaces_replace_le)
  also have "\<dots> < spaces x" using x assms(2) by simp
  finally show ?thesis .
qed


lemma skip_decl_stop:
  "skip_decl x i = j \<Longrightarrow> length x \<le> j \<or> x ! j = CHR ''<''"
proof (induction x i rule: skip_decl.induct)
  case (1 x i)
  show ?case
  proof (cases "i < length x \<and> x ! i \<noteq> CHR ''<''")
    case True
    then have "skip_decl x (i + 1) = j"
      using 1(2) by (subst (asm) skip_decl.simps) simp
    then show ?thesis using 1(1) True by blast
  next
    case False
    then have "j = i" using 1(2) by (subst (asm) skip_decl.simps) auto
    then show ?thesis using False by auto
  qed
qed

lemma read_tag_no_space:
  "read_tag x i a t = (j, tag) \<Longrightarrow> spaces t = 0 \<Longrightarrow> spaces tag = 0"
proof (induction x i a t rule: read_tag.induct)
  case (1 x i in_attr tag')
  show ?case
  proof (cases "i < length x \<and> x ! i \<noteq> CHR ''>''")
    case True
    define a' where "a' = (if x ! i = CHR '' '' then True else in_attr)"
    define t' where "t' = (if \<not> a' then tag' @ [x ! i] else tag')"
    have "read_tag x (i + 1) a' t' = (j, tag)"
      using 1(2) True by (subst (asm) read_tag.simps) (simp add: Let_def a'_def t'_def)
    moreover have "spaces t' = 0"
      using 1(3) by (auto simp: t'_def a'_def)
    ultimately show ?thesis
      using 1(1) [OF True a'_def t'_def] by blast
  next
    case False
    then have "tag = tag'"
      using 1(2) by (subst (asm) read_tag.simps) auto
    then show ?thesis using 1(3) by simp
  qed
qed

lemma read_value_end:
  "\<not> i < length x \<Longrightarrow> read_value x tag i v = (v, i)"
  by (subst read_value.simps) simp

lemma read_value_stop:
  "i < length x \<Longrightarrow> x ! i = CHR ''>'' \<Longrightarrow> suffix (''</'' @ tag @ ''>'') (v @ [x ! i]) \<Longrightarrow>
   read_value x tag i v = (take (length (v @ [x ! i]) - (length tag + 2)) (v @ [x ! i]), i)"
  apply (subst read_value.simps) 
  apply (simp only: Let_def if_True simp_thms)
  done

lemma read_value_step:
  "i < length x \<Longrightarrow> \<not> (x ! i = CHR ''>'' \<and> suffix (''</'' @ tag @ ''>'') (v @ [x ! i])) \<Longrightarrow>
   read_value x tag i v = read_value x tag (i + 1) (v @ [x ! i])"
  apply (subst read_value.simps) 
  apply (simp only: Let_def if_True if_False simp_thms)
  done

lemma read_value_bound:
  "read_value x tag i v = (val, e) \<Longrightarrow> \<exists>n. val = take n (v @ drop i x)"
proof (induction x tag i v rule: read_value.induct)
  case (1 x tag i v)
  show ?case
  proof (cases "i < length x")
    case True
    note lt = this
    have d: "drop i x = x ! i # drop (Suc i) x"
      using lt by (simp add: Cons_nth_drop_Suc)
    show ?thesis
    proof (cases "x ! i = CHR ''>'' \<and> suffix (''</'' @ tag @ ''>'') (v @ [x ! i])")
      case True
      have "read_value x tag i v = (take (length (v @ [x ! i]) - (length tag + 2)) (v @ [x ! i]), i)"
        using lt True by (intro read_value_stop) blast+
      with 1(2) have "val = take (length (v @ [x ! i]) - (length tag + 2)) (v @ [x ! i])"
        by auto
      then have "val = take (length (v @ [x ! i]) - (length tag + 2)) (v @ drop i x)"
        by (simp add: d)
      then show ?thesis by blast
    next
      case False
      have "read_value x tag i v = read_value x tag (i + 1) (v @ [x ! i])"
        using lt False by (rule read_value_step)
      with 1(2) have "read_value x tag (i + 1) (v @ [x ! i]) = (val, e)"
        by (simp only:)
      then have "\<exists>n. val = take n ((v @ [x ! i]) @ drop (i + 1) x)"
        using 1(1) [OF lt refl False] by blast
      then show ?thesis by (simp add: d)
    qed
  next
    case False
    then have "val = v" using 1(2) read_value_end [of i x tag v] by simp
    then have "val = take (length v) (v @ drop i x)" by simp
    then show ?thesis by blast
  qed
qed

definition smaller :: "string \<Rightarrow> string \<Rightarrow> bool" where
  "smaller a b = (spaces a < spaces b \<or> (spaces a \<le> spaces b \<and> length a < length b))"

lemma get_tag_value_Nil [simp]: "get_tag_value [] 0 = ([], [], [])"
  by (simp add: get_tag_value_def)

lemma smaller_strip: "smaller a b \<Longrightarrow> smaller (strip a) b"
  unfolding smaller_def
  using spaces_strip [of a] length_strip [of a] by linarith

lemma smaller_strip2: "smaller a (strip b) \<Longrightarrow> smaller a b"
  unfolding smaller_def
  using spaces_strip [of b] length_strip [of b] by linarith

definition gtv_start :: "string \<Rightarrow> nat" where
  "gtv_start x = (if prefix ''<?'' x then skip_decl x 2 else 0)"

lemma gtv_unfold:
  "get_tag_value s 0 =
     (let x = strip s; i = gtv_start x
      in if prefix ''</'' (drop i x)
         then (case read_tag x (i + 2) False [] of
                 (j, tag) \<Rightarrow> (strip tag, [], drop (j + 1) x))
         else if \<not> prefix ''<'' (drop i x)
         then ([], drop i x, [])
         else (case read_tag x (i + 1) False [] of
                 (j, tag) \<Rightarrow>
                   (let k = j + 1;
                        empty_elmt = ''<'' @ tag @ '' />'';
                        closed_elmt = ''<'' @ tag @ ''>None</'' @ tag @ ''>'';
                        x' = (if prefix empty_elmt x then replace empty_elmt closed_elmt x else x)
                    in (case read_value x' tag k [] of
                          (val, e) \<Rightarrow> (strip tag, butlast val, drop (e + 1) x')))))"
  unfolding get_tag_value_def gtv_start_def
  by (simp only: drop_0 add_0)

lemma gtv_close:
  "prefix ''</'' (drop (gtv_start (strip s)) (strip s)) \<Longrightarrow>
   read_tag (strip s) (gtv_start (strip s) + 2) False [] = (j, t) \<Longrightarrow>
   get_tag_value s 0 = (strip t, [], drop (j + 1) (strip s))"
  by (simp only: gtv_unfold Let_def if_True prod.case)

lemma gtv_text:
  "\<not> prefix ''</'' (drop (gtv_start (strip s)) (strip s)) \<Longrightarrow>
   \<not> prefix ''<'' (drop (gtv_start (strip s)) (strip s)) \<Longrightarrow>
   get_tag_value s 0 = ([], drop (gtv_start (strip s)) (strip s), [])"
  by (simp only: gtv_unfold Let_def if_True if_False simp_thms)

lemma gtv_open:
  "\<not> prefix ''</'' (drop (gtv_start (strip s)) (strip s)) \<Longrightarrow>
   prefix ''<'' (drop (gtv_start (strip s)) (strip s)) \<Longrightarrow>
   read_tag (strip s) (gtv_start (strip s) + 1) False [] = (j, t) \<Longrightarrow>
   x' = (if prefix (''<'' @ t @ '' />'') (strip s)
         then replace (''<'' @ t @ '' />'') (''<'' @ t @ ''>None</'' @ t @ ''>'') (strip s)
         else strip s) \<Longrightarrow>
   read_value x' t (j + 1) [] = (v, e) \<Longrightarrow>
   get_tag_value s 0 = (strip t, butlast v, drop (e + 1) x')"
  by (simp only: gtv_unfold Let_def if_True if_False simp_thms prod.case)

lemma gtv_smaller:
  assumes "s \<noteq> []" and "get_tag_value s 0 = (tag, val, rest)"
  shows "smaller rest s"
    and "fst (get_tag_value (strip val) 0) \<noteq> [] \<Longrightarrow> smaller (strip val) s"
proof -
  define x where "x = strip s"
  define i where "i = gtv_start x"
  have sx: "strip x = x" by (simp add: x_def)
  have goal: "smaller rest s \<and> (fst (get_tag_value (strip val) 0) \<noteq> [] \<longrightarrow> smaller (strip val) s)"
  proof (cases "prefix ''</'' (drop i x)")
    case True
    obtain j t where jt: "read_tag x (i + 2) False [] = (j, t)" by fastforce
    have "get_tag_value s 0 = (strip t, [], drop (j + 1) x)"
      using True jt unfolding x_def i_def by (rule gtv_close)
    then have r: "val = []" "rest = drop (j + 1) x"
      using assms(2) by simp_all
    have "x \<noteq> []" using True by auto
    then have "length rest < length x" using r by simp
    moreover have "spaces rest \<le> spaces x" using r spaces_drop by simp
    ultimately have "smaller rest x" by (simp add: smaller_def)
    then show ?thesis using r smaller_strip2 x_def by simp
  next
    case nclose: False
    show ?thesis
    proof (cases "prefix ''<'' (drop i x)")
      case False
      have "get_tag_value s 0 = ([], drop i x, [])"
        using nclose False unfolding x_def i_def by (rule gtv_text)
      then have r: "val = drop i x" "rest = []"
        using assms(2) by simp_all
      have 1: "smaller rest s" using r assms(1) by (simp add: smaller_def)
      have "fst (get_tag_value (strip val) 0) = []"
      proof (cases "prefix ''<?'' x")
        case True
        then have "i = skip_decl x 2" by (simp add: i_def gtv_start_def)
        then have "length x \<le> i \<or> x ! i = CHR ''<''" using skip_decl_stop by blast
        moreover have "i < length x \<Longrightarrow> x ! i \<noteq> CHR ''<''"
          using False by (simp add: Cons_nth_drop_Suc [symmetric])
        ultimately have "length x \<le> i" by fastforce
        then show ?thesis using r by simp
      next
        case nq: False
        then have i0: "i = 0" by (simp add: i_def gtv_start_def)
        then have vx: "val = x" using r by simp
        have "get_tag_value x 0 = ([], drop (gtv_start (strip x)) (strip x), [])"
          using nclose False unfolding i_def by (intro gtv_text) (simp_all add: sx)
        then show ?thesis
          using vx sx by simp
      qed
      then show ?thesis using 1 by simp
    next
      case True
      then have xne: "x \<noteq> []" by auto
      obtain j t where jt: "read_tag x (i + 1) False [] = (j, t)" by fastforce
      define x' where "x' = (if prefix (''<'' @ t @ '' />'') x
                             then replace (''<'' @ t @ '' />'') (''<'' @ t @ ''>None</'' @ t @ ''>'') x else x)"
      obtain v e where ve: "read_value x' t (j + 1) [] = (v, e)" by fastforce
      have "get_tag_value s 0 = (strip t, butlast v, drop (e + 1) x')"
        using nclose True jt x'_def ve unfolding x_def i_def by (rule gtv_open)
      then have r: "val = butlast v" "rest = drop (e + 1) x'"
        using assms(2) by simp_all
      have st: "spaces t = 0" using jt read_tag_no_space by fastforce
      obtain n where "v = take n ([] @ drop (j + 1) x')" using ve read_value_bound by blast
      then have v: "v = take n (drop (j + 1) x')" by simp
      have x'_le: "spaces x' \<le> spaces x"
        using st by (auto simp: x'_def intro!: spaces_replace_le)
      have "spaces (strip val) \<le> spaces val" by (rule spaces_strip)
      also have "\<dots> \<le> spaces v" unfolding r by (rule spaces_butlast)
      also have "\<dots> \<le> spaces (drop (j + 1) x')" unfolding v by (rule spaces_take)
      also have "\<dots> \<le> spaces x'" by (rule spaces_drop)
      finally have sp2: "spaces (strip val) \<le> spaces x'" .
      have sp1: "spaces rest \<le> spaces x'" unfolding r by (rule spaces_drop)
      note sp = sp1 sp2
      have "smaller rest x \<and> smaller (strip val) x"
      proof (cases "prefix (''<'' @ t @ '' />'') x")
        case True
        then have "spaces x' < spaces x"
          using st by (auto simp: x'_def intro!: spaces_replace_less)
        then show ?thesis using sp by (simp add: smaller_def)
      next
        case False
        then have "x' = x" by (simp add: x'_def)
        have lx: "0 < length x" using xne by simp
        have "length (strip val) \<le> length val" by (rule length_strip)
        also have "\<dots> \<le> length v" unfolding r by simp
        also have "\<dots> \<le> length (drop (j + 1) x')" unfolding v by simp
        also have "\<dots> < length x" using lx \<open>x' = x\<close> by simp
        finally have l2: "length (strip val) < length x" .
        have l1: "length rest < length x" using lx \<open>x' = x\<close> r by simp
        note l1 l2
        then show ?thesis using sp x'_le by (simp add: smaller_def)
      qed
      then show ?thesis using smaller_strip2 x_def by blast
    qed
  qed
  show "smaller rest s" using goal by blast
  show "fst (get_tag_value (strip val) 0) \<noteq> [] \<Longrightarrow> smaller (strip val) s" using goal by blast
qed

section \<open>The parser\<close>

text \<open>
  A parsed document is a Python \<open>dict\<close> from tag names to lists of children, each child a
  string or another such \<open>dict\<close>. The \<open>dict\<close> is a finite map: the code looks keys up and
  compares dictionaries with \<open>==\<close>, which ignores the order of insertion, and never iterates
  over one.
\<close>

datatype xml = Leaf string | Node "(string, xml list) fmap"

type_synonym xdict = "(string, xml list) fmap"

text \<open>\<open>d[k].append(v)\<close>, for a key that is in \<open>d\<close>.\<close>

definition dict_append :: "xdict \<Rightarrow> string \<Rightarrow> xml \<Rightarrow> xdict" where
  "dict_append d k v =
     (case fmlookup d k of None \<Rightarrow> d | Some vs \<Rightarrow> fmupd k (vs @ [v]) d)"

text \<open>
  The \<open>while s:\<close> loop of \<open>_xml2dict\<close>, with the dictionary \<open>d\<close> built so far. The
  recursive call \<open>_xml2dict(value)\<close> starts the loop again with an empty dictionary.
  (Python bounds the depth of the recursion; the model does not.)
\<close>

function xml2dict_loop :: "xdict \<Rightarrow> string \<Rightarrow> xdict" where
  "xml2dict_loop d s =
     (if s = [] then d
      else (let tvr = get_tag_value s 0;
                tag = fst tvr;
                val = strip (fst (snd tvr));
                rest = snd (snd tvr);
                isXml = fst (get_tag_value val 0);
                d1 = (if fmlookup d tag = None then fmupd tag [] d else d)
            in if isXml = []
               then (if val = [] then xml2dict_loop d1 rest
                     else xml2dict_loop (dict_append d1 tag (Leaf (strip val))) rest)
               else xml2dict_loop (dict_append d1 tag (Node (xml2dict_loop fmempty val))) rest))"
  by pat_completeness auto
termination
proof (relation "measures [\<lambda>(d, s). spaces s, \<lambda>(d, s). length s]")
  show "wf (measures [\<lambda>(d :: xdict, s). spaces s, \<lambda>(d, s). length s])"
    by (rule wf_measures)
next
  fix d :: xdict and s tvr tag val rest isXml d1
  assume a: "s \<noteq> []" "tvr = get_tag_value s 0" "val = strip (fst (snd tvr))" "rest = snd (snd tvr)"
  have "get_tag_value s 0 = (fst tvr, fst (snd tvr), rest)" using a by simp
  then have "smaller rest s" using a(1) gtv_smaller(1) by blast
  then show "((d1, rest), (d, s)) \<in> measures [\<lambda>(d, s). spaces s, \<lambda>(d, s). length s]"
    by (auto simp: smaller_def)
  then show "((dict_append d1 tag (Leaf (strip val)), rest), (d, s)) \<in> measures [\<lambda>(d, s). spaces s, \<lambda>(d, s). length s]"
    by simp
  then show "((dict_append d1 tag (Node (xml2dict_loop fmempty val)), rest), (d, s)) \<in> measures [\<lambda>(d, s). spaces s, \<lambda>(d, s). length s]"
    by simp
next
  fix d :: xdict and s tvr tag val rest isXml d1
  assume a: "s \<noteq> []" "tvr = get_tag_value s 0" "val = strip (fst (snd tvr))" 
     "isXml = fst (get_tag_value val 0)" "isXml \<noteq> []"
  have "get_tag_value s 0 = (fst tvr, fst (snd tvr), snd (snd tvr))" using a by simp
  then have "smaller val s" using a gtv_smaller(2) by blast
  then show "((fmempty, val), (d, s)) \<in> measures [\<lambda>(d, s). spaces s, \<lambda>(d, s). length s]"
    by (auto simp: smaller_def)
qed

declare xml2dict_loop.simps [simp del]


text \<open>
  \<open>''.join(re.findall(".*?(<.*)", s, re.M))\<close>: a dot matches every character but the line
  feed, so each line gives at most one match, from its first \<open><\<close> to its end, and the
  line feeds are dropped.
\<close>

definition ignore_until_xml :: "string \<Rightarrow> string" where
  "ignore_until_xml s =
     concat (map (dropWhile (\<lambda>c. c \<noteq> CHR ''<'')) (split (CHR 0x0A) s))"

definition xml2dict :: "string \<Rightarrow> bool \<Rightarrow> xdict" where
  "xml2dict s ignoreUntilXML =
     xml2dict_loop fmempty (if ignoreUntilXML then ignore_until_xml s else s)"

section \<open>Path queries\<close>

text \<open>
  The exceptions of Python that the modelled code can meet. All of them but
  \<open>KeyboardInterrupt\<close> are subclasses of \<open>Exception\<close>.
\<close>

datatype py_error =
  IndexError | KeyError | TypeError | ValueError | AttributeError | UnicodeDecodeError
  | UnboundLocalError | OSError | Exception string | KeyboardInterrupt

definition is_Exception :: "py_error \<Rightarrow> bool" where
  "is_Exception e = (e \<noteq> KeyboardInterrupt)"

text \<open>
  The inner loop of \<open>_xpath\<close>: \<open>for s in d[tag]: if s[a] == [aval]: d = s; break\<close>. Indexing
  a string \<open>s\<close> with the string \<open>a\<close> raises \<open>TypeError\<close>, a dictionary without the key \<open>a\<close>
  raises \<open>KeyError\<close>. When no entry matches, \<open>d\<close> stays what it was.
\<close>

fun scan_attr :: "xml list \<Rightarrow> string \<Rightarrow> string \<Rightarrow> xml \<Rightarrow> py_error + xml" where
  "scan_attr [] a aval d = Inr d"
| "scan_attr (Leaf t # ss) a aval d = Inl TypeError"
| "scan_attr (Node sd # ss) a aval d =
     (case fmlookup sd a of
        None \<Rightarrow> Inl KeyError
      | Some vs \<Rightarrow> if vs = [Leaf aval] then Inr (Node sd) else scan_attr ss a aval d)"

text \<open>
  One round of the \<open>for p in path.split('/')\<close> loop. \<open>Inr None\<close> is the \<open>return None\<close> of the
  loop, \<open>Inr (Some d')\<close> the new \<open>d\<close>. On a string \<open>d\<close>, \<open>tag not in d\<close> is the substring test,
  and \<open>d[tag]\<close> raises \<open>TypeError\<close>.
\<close>

definition xpath_step :: "xml \<Rightarrow> string \<Rightarrow> py_error + xml option" where
  "xpath_step d p =
     (let tag_attr = split (CHR ''@'') p;
          tag = hd tag_attr;
          attr = (if length tag_attr > 1 then tag_attr ! 1 else [])
      in if (case d of Leaf t \<Rightarrow> \<not> sublist tag t | Node dd \<Rightarrow> fmlookup dd tag = None)
         then Inr None
         else if attr \<noteq> []
         then (case split (CHR ''='') attr of
                 [a, aval] \<Rightarrow>
                   (case d of
                      Leaf t \<Rightarrow> Inl TypeError
                    | Node dd \<Rightarrow>
                        (case scan_attr (the (fmlookup dd tag)) a aval d of
                           Inl e \<Rightarrow> Inl e
                         | Inr d' \<Rightarrow> Inr (Some d')))
               | _ \<Rightarrow> Inl ValueError)
         else (case d of
                 Leaf t \<Rightarrow> Inl TypeError
               | Node dd \<Rightarrow>
                   (case the (fmlookup dd tag) of
                      [] \<Rightarrow> Inl IndexError
                    | c # cs \<Rightarrow> Inr (Some c))))"

fun xpath_loop :: "xml \<Rightarrow> string list \<Rightarrow> py_error + xml option" where
  "xpath_loop d [] = Inr (Some d)"
| "xpath_loop d (p # ps) =
     (case xpath_step d p of
        Inl e \<Rightarrow> Inl e
      | Inr None \<Rightarrow> Inr None
      | Inr (Some d') \<Rightarrow> xpath_loop d' ps)"

text \<open>\<open>_xpath(d, path)\<close>: \<open>Inr None\<close> is Python's \<open>None\<close>, the path was not found.\<close>

definition xpath :: "xml \<Rightarrow> string \<Rightarrow> py_error + xml option" where
  "xpath d path = xpath_loop d (split (CHR ''/'') path)"

section \<open>SOAP packets\<close>







definition URN_AVTransport :: string where
  "URN_AVTransport = ''urn:schemas-upnp-org:service:AVTransport:1''"


definition URN_RenderingControl :: string where
  "URN_RenderingControl = ''urn:schemas-upnp-org:service:RenderingControl:1''"




section \<open>Devices\<close>

text \<open>
  The attributes of a \<open>DlnapDevice\<close>. \<open>name\<close> and the two control URLs are results of
  \<open>_xpath\<close>, so each is a string or a dictionary; \<open>None\<close> is \<open>None\<close>. \<open>location\<close> is \<open>None\<close> as
  long as the attribute is not set.
\<close>

record device =
  ip :: string
  ssdp_version :: int
  location :: "string option"
  port :: "int option"
  name :: xml
  control_url :: "xml option"
  rendering_control_url :: "xml option"
  has_av_transport :: bool





section \<open>SOAP calls\<close>

definition unescape_xml :: "string \<Rightarrow> string" where
  "unescape_xml x = replace ''&quot;'' ''\"'' (replace ''&gt;'' ''>'' (replace ''&lt;'' ''<'' x))"

text \<open>
  What the network does in a call of \<open>_send_tcp\<close>: \<open>socket.socket\<close> raises (then \<open>sock\<close> is
  never bound); or the socket is made and one of \<open>settimeout\<close>, \<open>connect\<close>, \<open>sendall\<close>,
  \<open>recv\<close> and \<open>decode\<close> raises; or the reply is received and decoded.
\<close>

datatype tcp_io = SocketFails py_error | Fails py_error | Replies string

text \<open>The value a call returns: the empty string, or the parsed reply.\<close>

datatype tcp_data = Empty | Parsed xdict

record tcp_result =
  returned :: "py_error + tcp_data"
  logged :: "xml list"
  sock_closed :: bool

definition fault_path :: string where
  "fault_path = ''s:Envelope/s:Body/s:Fault/detail/UPnPError/errorDescription''"

text \<open>
  \<open>_send_tcp\<close>: \<open>try\<close> the call and the parsing, \<open>except Exception\<close> with \<open>data = ''\<close>,
  \<open>finally\<close> close the socket. When \<open>socket.socket\<close> itself raised, the name \<open>sock\<close> is
  unbound in the \<open>finally\<close> block, which raises \<open>UnboundLocalError\<close>.
\<close>

definition send_tcp :: "tcp_io \<Rightarrow> tcp_result" where
  "send_tcp io =
     (case io of
        SocketFails e \<Rightarrow> \<lparr>returned = Inl UnboundLocalError, logged = [], sock_closed = False\<rparr>
      | Fails e \<Rightarrow>
          (if is_Exception e
           then \<lparr>returned = Inr Empty, logged = [], sock_closed = True\<rparr>
           else \<lparr>returned = Inl e, logged = [], sock_closed = True\<rparr>)
      | Replies reply \<Rightarrow>
          (let data = xml2dict (unescape_xml reply) True
           in case xpath (Node data) fault_path of
                Inl e \<Rightarrow> \<lparr>returned = Inr Empty, logged = [], sock_closed = True\<rparr>
              | Inr None \<Rightarrow> \<lparr>returned = Inr (Parsed data), logged = [], sock_closed = True\<rparr>
              | Inr (Some errorDescription) \<Rightarrow>
                  \<lparr>returned = Inr (Parsed data), logged = [errorDescription], sock_closed = True\<rparr>))"

section \<open>Device resolution\<close>

text \<open>
  The library calls of the constructor, as parameters: \<open>raw.decode()\<close>, the two
  \<open>re.findall\<close> calls with their fixed patterns, \<open>int\<close>, and
  \<open>urlopen(location).read().decode()\<close>. Each returns its value or raises.
\<close>

record 'raw resolver =
  decode :: "'raw \<Rightarrow> py_error + string"
  findall_location :: "string \<Rightarrow> py_error + string list"
  findall_port :: "string \<Rightarrow> py_error + string list"
  int_of_str :: "string \<Rightarrow> py_error + int"
  urlopen :: "string \<Rightarrow> py_error + string"

definition get_location_url :: "'raw resolver \<Rightarrow> string \<Rightarrow> py_error + string" where
  "get_location_url env raw =
     (case findall_location env raw of
        Inl e \<Rightarrow> Inl e
      | Inr t \<Rightarrow> Inr (if length t > 0 then hd t else []))"

definition get_port :: "'raw resolver \<Rightarrow> string \<Rightarrow> py_error + int" where
  "get_port env loc =
     (case findall_port env loc of
        Inl e \<Rightarrow> Inl e
      | Inr p \<Rightarrow> (if p \<noteq> [] then int_of_str env (hd p) else Inr 80))"

definition get_friendly_name :: "xdict \<Rightarrow> py_error + xml" where
  "get_friendly_name x =
     (case xpath (Node x) ''root/device/friendlyName'' of
        Inl e \<Rightarrow> Inl e
      | Inr None \<Rightarrow> Inr (Leaf ''Unknown'')
      | Inr (Some n) \<Rightarrow> Inr n)"

definition get_control_url :: "xdict \<Rightarrow> string \<Rightarrow> py_error + xml option" where
  "get_control_url x urn =
     xpath (Node x) (''root/device/serviceList/service@serviceType='' @ urn @ ''/controlURL'')"

text \<open>
  The body of \<open>DlnapDevice.__init__\<close>: the attributes are set before the \<open>try\<close>, then one
  after the other inside it. The result is the device as the body leaves it, and the
  exception that ended the body, if one did.
\<close>

definition init_body :: "'raw resolver \<Rightarrow> 'raw \<Rightarrow> string \<Rightarrow> device \<times> py_error option" where
  "init_body env raw addr =
     (let d0 = \<lparr>ip = addr, ssdp_version = 1, location = None, port = None,
                name = Leaf ''Unknown'', control_url = None, rendering_control_url = None,
                has_av_transport = False\<rparr>
      in case decode env raw of
           Inl e \<Rightarrow> (d0, Some e)
         | Inr raw_str \<Rightarrow>
      (case get_location_url env raw_str of
           Inl e \<Rightarrow> (d0, Some e)
         | Inr loc \<Rightarrow>
      (let d1 = d0\<lparr>location := Some loc\<rparr>
      in case get_port env loc of
           Inl e \<Rightarrow> (d1, Some e)
         | Inr p \<Rightarrow>
      (let d2 = d1\<lparr>port := Some p\<rparr>
      in case urlopen env loc of
           Inl e \<Rightarrow> (d2, Some e)
         | Inr raw_desc_xml \<Rightarrow>
      (let desc_xml = xml2dict raw_desc_xml False
      in case get_friendly_name desc_xml of
           Inl e \<Rightarrow> (d2, Some e)
         | Inr n \<Rightarrow>
      (let d3 = d2\<lparr>name := n\<rparr>
      in case get_control_url desc_xml URN_AVTransport of
           Inl e \<Rightarrow> (d3, Some e)
         | Inr cu \<Rightarrow>
      (let d4 = d3\<lparr>control_url := cu\<rparr>
      in case get_control_url desc_xml URN_RenderingControl of
           Inl e \<Rightarrow> (d4, Some e)
         | Inr ru \<Rightarrow>
             (d4\<lparr>rendering_control_url := ru, has_av_transport := (cu \<noteq> None)\<rparr>, None))))))))"

text \<open>
  \<open>DlnapDevice(raw, ip)\<close>: \<open>except Exception\<close> logs a warning and the object is returned
  as it is; an exception that is not an \<open>Exception\<close> leaves the constructor.
\<close>

definition DlnapDevice :: "'raw resolver \<Rightarrow> 'raw \<Rightarrow> string \<Rightarrow> py_error + device" where
  "DlnapDevice env raw addr =
     (case init_body env raw addr of
        (d, None) \<Rightarrow> Inr d
      | (d, Some e) \<Rightarrow> if is_Exception e then Inr d else Inl e)"

text \<open>\<open>__eq__\<close>\<close>

definition device_eq :: "device \<Rightarrow> device \<Rightarrow> bool" where
  "device_eq self d = (name self = name d \<and> ip self = ip d)"

section \<open>Discovery\<close>

text \<open>\<open>str.lower\<close> on the code points below 256.\<close>

definition lower_char :: "char \<Rightarrow> char" where
  "lower_char c =
     (let n = (of_char c :: nat)
      in if (65 \<le> n \<and> n \<le> 90) \<or> (192 \<le> n \<and> n \<le> 222 \<and> n \<noteq> 215)
         then char_of (n + 32) else c)"

definition lower :: "string \<Rightarrow> string" where
  "lower s = map lower_char s"

text \<open>
  What one round of the polling loop meets after it has read the clock: \<open>select.select\<close>
  raises; or the socket is readable and \<open>recvfrom\<close> raises or returns the datagram and the
  address of its sender; or the socket is only in the exceptional set; or the second passed
  with nothing to read. A \<open>KeyboardInterrupt\<close> in a round is \<open>SelectRaises KeyboardInterrupt\<close>.
\<close>

datatype 'raw poll =
    SelectRaises py_error
  | Readable "py_error + 'raw \<times> string"
  | Exceptional
  | Idle

text \<open>
  The state of the \<open>Cli\<close> object that \<open>discover\<close> works on: the list \<open>devices\<close>, and the
  lines printed, each the index and the device that \<open>print\<close> formats.
\<close>

record cli =
  devices :: "device list"
  printed :: "(nat \<times> device) list"

text \<open>
  How a run of the loop over a finite list of rounds ends: the code left the loop, it
  raised, or the rounds are used up and the loop is still polling.
\<close>

datatype status = Returned | Raised py_error | Running

text \<open>
  \<open>not name or name is None or name.lower() in d.name.lower()\<close>. A name that is a dictionary
  has no \<open>lower\<close>.
\<close>

definition name_matches :: "string \<Rightarrow> device \<Rightarrow> py_error + bool" where
  "name_matches flt d =
     (if flt = [] then Inr True
      else (case name d of
              Leaf n \<Rightarrow> Inr (sublist (lower flt) (lower n))
            | Node x \<Rightarrow> Inl AttributeError))"

text \<open>\<open>self.devices.index(d)\<close>, for a \<open>d\<close> that is in the list.\<close>

definition index_of :: "device list \<Rightarrow> device \<Rightarrow> nat" where
  "index_of ds d = length (takeWhile (\<lambda>e. \<not> device_eq e d) ds)"

text \<open>
  One round of the \<open>while True\<close> loop of \<open>discover\<close>, and how it leaves the loop body: it
  goes on with the next round (the body ends, or \<open>continue\<close>), it breaks out of the loop, or
  it raises. \<open>flt\<close> and \<open>ipf\<close> are the parameters \<open>name\<close> and \<open>ip\<close>, \<open>ver\<close> is \<open>ssdp_version\<close>.
  The round has the value of \<open>time.time() - start\<close> that it reads, a real number, and what
  the poll gives. \<open>d not in self.devices\<close> compares \<open>d\<close> with \<open>__eq__\<close> to every device of the
  list.
\<close>

datatype flow = Continue cli | Break cli | Raise py_error cli

definition discover_round ::
  "'raw resolver \<Rightarrow> string \<Rightarrow> string \<Rightarrow> real \<Rightarrow> int \<Rightarrow> real \<times> 'raw poll \<Rightarrow> cli \<Rightarrow> flow" where
  "discover_round env flt ipf timeout ver r c =
     (case r of (elapsed, ev) \<Rightarrow>
        if elapsed > timeout then Break c
        else (case ev of
                SelectRaises e \<Rightarrow> Raise e c
              | Readable (Inl e) \<Rightarrow> Raise e c
              | Readable (Inr (data, addr)) \<Rightarrow>
                  (if ipf \<noteq> [] \<and> addr \<noteq> ipf then Continue c
                   else (case DlnapDevice env data addr of
                           Inl e \<Rightarrow> Raise e c
                         | Inr d0 \<Rightarrow>
                             (let d = d0\<lparr>ssdp_version := ver\<rparr>
                              in if list_all (\<lambda>e. \<not> device_eq e d) (devices c)
                                 then (case name_matches flt d of
                                         Inl e \<Rightarrow> Raise e c
                                       | Inr False \<Rightarrow> Continue c
                                       | Inr True \<Rightarrow>
                                           (let c' = c\<lparr>devices := devices c @ [d],
                                                       printed := printed c
                                                         @ [(index_of (devices c @ [d]) d, d)]\<rparr>
                                            in if ipf = [] then Continue c'
                                               else if has_av_transport d then Break c'
                                               else Continue c'))
                                 else Continue c)))
              | Exceptional \<Rightarrow> Raise (Exception ''Getting response failed'') c
              | Idle \<Rightarrow> Continue c))"

text \<open>
  The loop over a list of rounds. When the rounds are used up the loop is still polling.
\<close>

fun discover_loop ::
  "'raw resolver \<Rightarrow> string \<Rightarrow> string \<Rightarrow> real \<Rightarrow> int \<Rightarrow> (real \<times> 'raw poll) list \<Rightarrow> cli
   \<Rightarrow> status \<times> cli" where
  "discover_loop env flt ipf timeout ver [] c = (Running, c)"
| "discover_loop env flt ipf timeout ver (r # rs) c =
     (case discover_round env flt ipf timeout ver r c of
        Continue c' \<Rightarrow> discover_loop env flt ipf timeout ver rs c'
      | Break c' \<Rightarrow> (Returned, c')
      | Raise e c' \<Rightarrow> (Raised e, c'))"

text \<open>\<open>try: while True: ... except KeyboardInterrupt: pass\<close>\<close>

definition discover_body ::
  "'raw resolver \<Rightarrow> string \<Rightarrow> string \<Rightarrow> real \<Rightarrow> int \<Rightarrow> (real \<times> 'raw poll) list \<Rightarrow> cli \<Rightarrow> status \<times> cli" where
  "discover_body env flt ipf timeout ver evs c =
     (case discover_loop env flt ipf timeout ver evs c of
        (Raised e, c') \<Rightarrow> if e = KeyboardInterrupt then (Returned, c') else (Raised e, c')
      | r \<Rightarrow> r)"

text \<open>
  \<open>with _send_udp(SSDP_GROUP, payload) as sock: ...\<close>. \<open>_send_udp\<close> is a generator under
  \<open>@contextmanager\<close>: it makes the socket and sends the search (\<open>send\<close> is the exception that
  this raises, if it does), yields the socket, and closes it in the statement after the
  \<open>yield\<close>. When the body of the \<open>with\<close> ends normally the generator is resumed and closes
  the socket. When the body raises, the exception is thrown into the generator at the
  \<open>yield\<close>, which is not inside a \<open>try\<close>: the generator ends there, and \<open>sock.close()\<close> is
  not run. The result is the status, the state of the \<open>Cli\<close> and whether the socket was
  closed. (The method has no \<open>return\<close> statement: a call that returns gives \<open>None\<close>. The text
  of the search request plays no part in what follows and is left out.)
\<close>

definition discover ::
  "'raw resolver \<Rightarrow> string \<Rightarrow> string \<Rightarrow> real \<Rightarrow> int \<Rightarrow> py_error option \<Rightarrow> (real \<times> 'raw poll) list \<Rightarrow> cli
   \<Rightarrow> status \<times> cli \<times> bool" where
  "discover env flt ipf timeout ver send evs c =
     (case send of
        Some e \<Rightarrow> (Raised e, c, False)
      | None \<Rightarrow>
          (case discover_body env flt ipf timeout ver evs c of
             (Returned, c') \<Rightarrow> (Returned, c', True)
           | (Raised e, c') \<Rightarrow> (Raised e, c', False)
           | (Running, c') \<Rightarrow> (Running, c', False)))"

text \<open>The state that a round leaves.\<close>

fun cli_of :: "flow \<Rightarrow> cli" where
  "cli_of (Continue c) = c"
| "cli_of (Break c) = c"
| "cli_of (Raise e c) = c"

text \<open>The identity of a device: what \<open>__eq__\<close> compares.\<close>

definition identity :: "device \<Rightarrow> xml \<times> string" where
  "identity d = (name d, ip d)"

section \<open>The loops of the tag extractor, on the rest of the text\<close>

text \<open>
  The three loops of \<open>_get_tag_value\<close> read \<open>x[i]\<close> for growing \<open>i\<close>. Here they run over
  \<open>x[i:]\<close>, and the value is collected in reverse: the same results (the lemmas below), and
  equations that evaluate faster.
\<close>

fun skip_decl_from :: "string \<Rightarrow> nat \<Rightarrow> nat" where
  "skip_decl_from [] i = i"
| "skip_decl_from (c # cs) i = (if c \<noteq> CHR ''<'' then skip_decl_from cs (i + 1) else i)"

fun read_tag_from :: "string \<Rightarrow> nat \<Rightarrow> bool \<Rightarrow> string \<Rightarrow> nat \<times> string" where
  "read_tag_from [] i in_attr tag = (i, tag)"
| "read_tag_from (c # cs) i in_attr tag =
     (if c \<noteq> CHR ''>''
      then (if c = CHR '' '' then read_tag_from cs (i + 1) True tag
            else if in_attr then read_tag_from cs (i + 1) True tag
            else read_tag_from cs (i + 1) False (tag @ [c]))
      else (i, tag))"

fun read_value_from :: "string \<Rightarrow> string \<Rightarrow> nat \<Rightarrow> nat \<Rightarrow> string \<Rightarrow> string \<times> nat" where
  "read_value_from [] rclose k i rval = (rev rval, i)"
| "read_value_from (c # cs) rclose k i rval =
     (if c = CHR ''>''
      then (if prefix rclose (c # rval) then (rev (drop k (c # rval)), i)
            else read_value_from cs rclose k (i + 1) (c # rval))
      else read_value_from cs rclose k (i + 1) (c # rval))"

lemma drop_nth: "i < length x \<Longrightarrow> drop i x = x ! i # drop (i + 1) x"
  by (simp add: Cons_nth_drop_Suc)

lemma skip_decl_code [code]: "skip_decl x i = skip_decl_from (drop i x) i"
proof (induction x i rule: skip_decl.induct)
  case (1 x i)
  show ?case
  proof (cases "i < length x")
    case True
    then show ?thesis
      using 1 by (subst skip_decl.simps) (simp add: drop_nth)
  next
    case False
    then show ?thesis by (subst skip_decl.simps) simp
  qed
qed

lemma read_tag_code [code]: "read_tag x i a t = read_tag_from (drop i x) i a t"
proof (induction x i a t rule: read_tag.induct)
  case (1 x i a t)
  show ?case
  proof (cases "i < length x")
    case True
    then show ?thesis
      using 1 by (subst read_tag.simps) (simp add: drop_nth Let_def)
  next
    case False
    then show ?thesis by (subst read_tag.simps) simp
  qed
qed

lemma read_value_from_Cons_stop:
  "c = CHR ''>'' \<Longrightarrow> prefix rclose (c # rval) \<Longrightarrow>
   read_value_from (c # cs) rclose k i rval = (rev (drop k (c # rval)), i)"
  by simp

lemma read_value_from_Cons_step:
  "\<not> (c = CHR ''>'' \<and> prefix rclose (c # rval)) \<Longrightarrow>
   read_value_from (c # cs) rclose k i rval = read_value_from cs rclose k (i + 1) (c # rval)"
  by auto

lemma read_value_from_eq:
  "read_value x tag i val =
     read_value_from (drop i x) (rev (''</'' @ tag @ ''>'')) (length tag + 2) i (rev val)"
proof (induction x tag i val rule: read_value.induct)
  case (1 x tag i val)
  define rclose where "rclose = rev (''</'' @ tag @ ''>'')"
  define c where "c = x ! i"
  show ?case
  proof (cases "i < length x")
    case False
    then show ?thesis by (simp add: read_value_end)
  next
    case True
    note lt = this
    have dr: "drop i x = c # drop (i + 1) x"
      unfolding c_def using lt by (rule drop_nth)
    have sfx: "suffix (''</'' @ tag @ ''>'') (val @ [c]) \<longleftrightarrow> prefix rclose (c # rev val)"
      unfolding rclose_def by (simp only: suffix_to_prefix rev_append rev.simps append.simps)
    have tk: "take (length (val @ [c]) - (length tag + 2)) (val @ [c])
                = rev (drop (length tag + 2) (c # rev val))"
    proof -
      have "rev (drop (length tag + 2) (rev (val @ [c])))
              = take (length (val @ [c]) - (length tag + 2)) (val @ [c])"
        by (simp only: rev_drop length_rev rev_rev_ident)
      moreover have "rev (val @ [c]) = c # rev val"
        by simp
      ultimately show ?thesis by (simp only:)
    qed
    show ?thesis
    proof (cases "c = CHR ''>'' \<and> suffix (''</'' @ tag @ ''>'') (val @ [c])")
      case True
      have "read_value x tag i val
              = (take (length (val @ [c]) - (length tag + 2)) (val @ [c]), i)"
        unfolding c_def using lt True [unfolded c_def] by (intro read_value_stop) blast+
      moreover have "read_value_from (c # drop (i + 1) x) rclose (length tag + 2) i (rev val)
              = (rev (drop (length tag + 2) (c # rev val)), i)"
        using True sfx by (intro read_value_from_Cons_stop) blast+
      ultimately show ?thesis
        unfolding rclose_def [symmetric] dr by (simp only: tk)
    next
      case False
      have "read_value x tag i val = read_value x tag (i + 1) (val @ [c])"
        unfolding c_def using lt False [unfolded c_def] by (rule read_value_step)
      also have "\<dots> = read_value_from (drop (i + 1) x) rclose (length tag + 2)
                          (i + 1) (rev (val @ [c]))"
        unfolding rclose_def c_def using lt False [unfolded c_def] by (intro 1) simp_all
      also have "rev (val @ [c]) = c # rev val"
        by simp
      also have "read_value_from (drop (i + 1) x) rclose (length tag + 2) (i + 1) (c # rev val)
                   = read_value_from (c # drop (i + 1) x) rclose (length tag + 2) i (rev val)"
        using False sfx by (intro read_value_from_Cons_step [symmetric]) blast
      finally show ?thesis
        unfolding rclose_def [symmetric] dr .
    qed
  qed
qed

lemmas read_value_code [code] = read_value_from_eq

section \<open>Examples\<close>

text \<open>
  A resolver for the examples: the discovery response decodes to itself, the \<open>LOCATION\<close>
  header gives \<open>locs\<close>, the port of a location that is not empty is 8080, and \<open>fetch\<close>
  fetches the description.
\<close>

definition example_resolver :: "string list \<Rightarrow> (string \<Rightarrow> py_error + string) \<Rightarrow> string resolver" where
  "example_resolver locs fetch =
     \<lparr>decode = Inr,
      findall_location = (\<lambda>raw. Inr locs),
      findall_port = (\<lambda>loc. Inr (if loc = [] then [] else [''8080''])),
      int_of_str = (\<lambda>s. Inr 8080),
      urlopen = fetch\<rparr>"

text \<open>
  Three descriptions: a device with a name and no service; a device with an AVTransport
  service; and one whose second service has no \<open>serviceType\<close>.
\<close>

definition tv_description :: string where
  "tv_description = ''<root><device><friendlyName>TV</friendlyName></device></root>''"



text \<open>The devices that they resolve to.\<close>

definition tv_device :: device where
  "tv_device = \<lparr>ip = ''10.0.0.5'', ssdp_version = 1, location = Some ''http://10.0.0.5:8080/d.xml'',
       port = Some 8080, name = Leaf ''TV'', control_url = None, rendering_control_url = None,
       has_av_transport = False\<rparr>"



lemma init_body_tv:
  "init_body (example_resolver [''http://10.0.0.5:8080/d.xml''] (\<lambda>loc. Inr tv_description)) ''raw'' ''10.0.0.5''
     = (tv_device, None)"
  by code_simp



lemma DlnapDevice_tv:
  "DlnapDevice (example_resolver [''http://10.0.0.5:8080/d.xml''] (\<lambda>loc. Inr tv_description)) ''raw'' ''10.0.0.5''
     = Inr tv_device"
  by (simp add: DlnapDevice_def init_body_tv)


lemma name_matches_tv:
  "name_matches [] tv_device = Inr True" "name_matches ''tv'' tv_device = Inr True"
  "name_matches ''x'' tv_device = Inr False"
  by code_simp+

lemma tv_device_fields:
  "name tv_device = Leaf ''TV''" "ip tv_device = ''10.0.0.5''" "has_av_transport tv_device = False"
  "tv_device\<lparr>ssdp_version := 1\<rparr> = tv_device"
  by (simp_all add: tv_device_def)


lemma loop_tv_twice:
  "discover_loop (example_resolver [''http://10.0.0.5:8080/d.xml''] (\<lambda>loc. Inr tv_description)) [] [] 10 1
     [(0, Readable (Inr (''raw'', ''10.0.0.5''))), (1, Readable (Inr (''raw'', ''10.0.0.5'')))]
     \<lparr>devices = [], printed = []\<rparr>
   = (Running, \<lparr>devices = [tv_device], printed = [(0, tv_device)]\<rparr>)"
  by (simp add: discover_round_def DlnapDevice_tv name_matches_tv Let_def device_eq_def index_of_def
        tv_device_fields)

lemma loop_tv_filtered:
  "discover_loop (example_resolver [''http://10.0.0.5:8080/d.xml''] (\<lambda>loc. Inr tv_description)) ''x'' [] 10 1
     [(0, Readable (Inr (''raw'', ''10.0.0.5''))), (1, Readable (Inr (''raw'', ''10.0.0.5'')))]
     \<lparr>devices = [], printed = []\<rparr>
   = (Running, \<lparr>devices = [], printed = []\<rparr>)"
  by (simp add: discover_round_def DlnapDevice_tv name_matches_tv Let_def device_eq_def index_of_def
        tv_device_fields)


section \<open>Properties of path queries\<close>

lemma split_no_sep: "sep \<notin> set s \<Longrightarrow> split sep s = [s]"
  by (induction s) auto

lemma xpath_loop_append:
  "xpath_loop d (pre @ qs) =
     (case xpath_loop d pre of
        Inl e \<Rightarrow> Inl e
      | Inr None \<Rightarrow> Inr None
      | Inr (Some d') \<Rightarrow> xpath_loop d' qs)"
  by (induction pre arbitrary: d) (auto split: sum.splits option.splits)

lemma xpath_step_empty:
  "fmlookup dd tag = Some [] \<Longrightarrow> CHR ''@'' \<notin> set tag \<Longrightarrow>
   xpath_step (Node dd) tag = Inl IndexError"
  by (simp add: xpath_step_def split_no_sep)

text \<open>
  Claim C9. Path evaluation is not total over parsed trees. When the segments \<open>pre\<close> lead
  from \<open>d\<close> to a dictionary \<open>dd\<close>, and the next segment is a tag without a filter whose
  list of children in \<open>dd\<close> is empty, then \<open>d[tag][0]\<close> raises \<open>IndexError\<close>: the evaluation
  does not return \<open>None\<close>. The parser produces such empty lists for an element with empty or
  blank content and for a stray closing tag (see the witness).
\<close>

theorem xpath_empty_children_raises:
  assumes "xpath_loop d pre = Inr (Some (Node dd))"
    and "fmlookup dd tag = Some []"
    and "CHR ''@'' \<notin> set tag"
  shows "xpath_loop d (pre @ tag # ps) = Inl IndexError"
  using assms by (simp add: xpath_loop_append xpath_step_empty)

theorem xpath_empty_children_raises_witness:
  "xpath_loop (Node (xml2dict ''<a><b></b></a>'' False)) [''a'']
     = Inr (Some (Node (fmap_of_list [(''b'', [])])))
   \<and> fmlookup (fmap_of_list [(''b'', [])]) ''b'' = Some ([] :: xml list)
   \<and> CHR ''@'' \<notin> set ''b''
   \<and> xpath (Node (xml2dict ''<a><b></b></a>'' False)) ''a/b'' = Inl IndexError
   \<and> xml2dict ''<a>  </a>'' False = fmap_of_list [(''a'', [])]
   \<and> xpath (Node (xml2dict ''<a>  </a>'' False)) ''a'' = Inl IndexError
   \<and> xml2dict ''</c>'' False = fmap_of_list [(''c'', [])]
   \<and> xpath (Node (xml2dict ''</c>'' False)) ''c'' = Inl IndexError"
proof -
  have 1: "xpath_loop (Node (xml2dict ''<a><b></b></a>'' False)) [''a'']
             = Inr (Some (Node (fmap_of_list [(''b'', [])])))"
    by code_simp
  have 2: "fmlookup (fmap_of_list [(''b'', [])]) ''b'' = Some ([] :: xml list)"
    by code_simp
  have 3: "CHR ''@'' \<notin> set ''b''"
    by simp
  have "xpath_loop (Node (xml2dict ''<a><b></b></a>'' False)) ([''a''] @ ''b'' # [])
          = Inl IndexError"
    using 1 2 3 by (rule xpath_empty_children_raises)
  moreover have "split (CHR ''/'') ''a/b'' = [''a''] @ ''b'' # []"
    by simp
  ultimately have 4: "xpath (Node (xml2dict ''<a><b></b></a>'' False)) ''a/b'' = Inl IndexError"
    by (simp only: xpath_def)
  have 5: "xml2dict ''<a>  </a>'' False = fmap_of_list [(''a'', [])]"
    by code_simp
  have 6: "xpath (Node (xml2dict ''<a>  </a>'' False)) ''a'' = Inl IndexError"
    by code_simp
  have 7: "xml2dict ''</c>'' False = fmap_of_list [(''c'', [])]"
    by code_simp
  have 8: "xpath (Node (xml2dict ''</c>'' False)) ''c'' = Inl IndexError"
    by code_simp
  show ?thesis
    using 1 2 3 4 5 6 7 8 by blast
qed

text \<open>
  What the filter of a segment \<open>tag@a=aval\<close> asks of an entry \<open>s\<close> of the child list: \<open>s\<close>
  is a dictionary with the key \<open>a\<close> (\<open>has_attr\<close>), and \<open>s[a] == [aval]\<close> (\<open>attr_equals\<close>).
\<close>

definition has_attr :: "string \<Rightarrow> xml \<Rightarrow> bool" where
  "has_attr a s = (case s of Leaf t \<Rightarrow> False | Node sd \<Rightarrow> fmlookup sd a \<noteq> None)"

definition attr_equals :: "string \<Rightarrow> string \<Rightarrow> xml \<Rightarrow> bool" where
  "attr_equals a aval s =
     (case s of Leaf t \<Rightarrow> False | Node sd \<Rightarrow> fmlookup sd a = Some [Leaf aval])"

lemma split_sep: "sep \<notin> set u \<Longrightarrow> split sep (u @ sep # v) = u # split sep v"
  by (induction u) (auto split: list.splits)

lemma scan_attr_no_match:
  "\<forall>s \<in> set cs. has_attr a s \<and> \<not> attr_equals a aval s \<Longrightarrow> scan_attr cs a aval d = Inr d"
proof (induction cs)
  case Nil
  then show ?case by simp
next
  case (Cons s cs)
  then show ?case
    by (cases s) (auto simp: has_attr_def attr_equals_def)
qed

lemma xpath_step_no_match:
  assumes "fmlookup dd tag = Some cs"
    and "\<forall>s \<in> set cs. has_attr a s \<and> \<not> attr_equals a aval s"
    and "CHR ''@'' \<notin> set tag" "CHR ''@'' \<notin> set a" "CHR ''@'' \<notin> set aval"
    and "CHR ''='' \<notin> set a" "CHR ''='' \<notin> set aval"
  shows "xpath_step (Node dd) (tag @ ''@'' @ a @ ''='' @ aval) = Inr (Some (Node dd))"
proof -
  have 1: "split (CHR ''@'') (tag @ ''@'' @ a @ ''='' @ aval) = [tag, a @ ''='' @ aval]"
    using assms(3-5) by (simp add: split_sep split_no_sep)
  have 2: "split (CHR ''='') (a @ ''='' @ aval) = [a, aval]"
    using assms(6,7) by (simp add: split_sep split_no_sep)
  show ?thesis
    unfolding xpath_step_def 1 using 2 assms(1) scan_attr_no_match [OF assms(2)]
    by (simp add: Let_def)
qed

text \<open>
  Claim C10, as amended. A segment \<open>tag@a=aval\<close> whose filter matches no entry leaves the
  current node as it is, and the evaluation goes on with the next segment on the same
  node, provided that every entry of the child list of \<open>tag\<close> is a dictionary with the key
  \<open>a\<close>. (The loop over the entries has no \<open>else\<close>: nothing is returned or raised when it runs
  to its end.)
\<close>

theorem xpath_filter_without_match:
  assumes "fmlookup dd tag = Some cs"
    and "\<forall>s \<in> set cs. has_attr a s \<and> \<not> attr_equals a aval s"
    and "CHR ''@'' \<notin> set tag" "CHR ''@'' \<notin> set a" "CHR ''@'' \<notin> set aval"
    and "CHR ''='' \<notin> set a" "CHR ''='' \<notin> set aval"
  shows "xpath_loop (Node dd) ((tag @ ''@'' @ a @ ''='' @ aval) # ps) = xpath_loop (Node dd) ps"
  using xpath_step_no_match [OF assms] by simp

text \<open>
  A service list with one service, of type \<open>x\<close>, asked for the control URL of a service of
  type \<open>y\<close>: the filter matches nothing, so \<open>controlURL\<close> is looked up in the service list
  itself, where it is not a key, and the result is \<open>None\<close>.
\<close>

theorem xpath_filter_without_match_witness:
  "fmlookup
     (xml2dict ''<service><serviceType>x</serviceType><controlURL>/c</controlURL></service>'' False)
     ''service''
     = Some [Node (fmap_of_list [(''serviceType'', [Leaf ''x'']), (''controlURL'', [Leaf ''/c''])])]
   \<and> has_attr ''serviceType''
        (Node (fmap_of_list [(''serviceType'', [Leaf ''x'']), (''controlURL'', [Leaf ''/c''])]))
   \<and> \<not> attr_equals ''serviceType'' ''y''
        (Node (fmap_of_list [(''serviceType'', [Leaf ''x'']), (''controlURL'', [Leaf ''/c''])]))
   \<and> xpath_loop
        (Node (xml2dict ''<service><serviceType>x</serviceType><controlURL>/c</controlURL></service>'' False))
        [''service@serviceType=y'', ''controlURL'']
      = xpath_loop
        (Node (xml2dict ''<service><serviceType>x</serviceType><controlURL>/c</controlURL></service>'' False))
        [''controlURL'']
   \<and> xpath
        (Node (xml2dict ''<service><serviceType>x</serviceType><controlURL>/c</controlURL></service>'' False))
        ''service@serviceType=y/controlURL''
      = Inr None"
proof -
  let ?dd = "xml2dict ''<service><serviceType>x</serviceType><controlURL>/c</controlURL></service>'' False"
  let ?s = "Node (fmap_of_list [(''serviceType'', [Leaf ''x'']), (''controlURL'', [Leaf ''/c''])])"
  have 1: "fmlookup ?dd ''service'' = Some [?s]"
    by code_simp
  have 2: "has_attr ''serviceType'' ?s"
    by code_simp
  have 3: "\<not> attr_equals ''serviceType'' ''y'' ?s"
    by code_simp
  have 4: "\<forall>s \<in> set [?s]. has_attr ''serviceType'' s \<and> \<not> attr_equals ''serviceType'' ''y'' s"
    using 2 3 by simp
  have "xpath_loop (Node ?dd) ((''service'' @ ''@'' @ ''serviceType'' @ ''='' @ ''y'') # [''controlURL''])
          = xpath_loop (Node ?dd) [''controlURL'']"
    using 1 4 by (rule xpath_filter_without_match) simp_all
  then have 5: "xpath_loop (Node ?dd) [''service@serviceType=y'', ''controlURL'']
                  = xpath_loop (Node ?dd) [''controlURL'']"
    by simp
  have 6: "xpath (Node ?dd) ''service@serviceType=y/controlURL'' = Inr None"
    by code_simp
  show ?thesis
    using 1 2 3 5 6 by blast
qed

text \<open>
  The claim as it was stated asks nothing of the entries that do not match. An entry that
  is a dictionary without the key of the filter does not match, and the scan raises
  \<open>KeyError\<close> on it.
\<close>

theorem xpath_filter_missing_attr_counterexample:
  "fmlookup (xml2dict ''<a><b>x</b></a>'' False) ''a''
     = Some [Node (fmap_of_list [(''b'', [Leaf ''x''])])]
   \<and> \<not> attr_equals ''c'' ''v'' (Node (fmap_of_list [(''b'', [Leaf ''x''])]))
   \<and> xpath (Node (xml2dict ''<a><b>x</b></a>'' False)) ''a@c=v'' = Inl KeyError
   \<and> xpath (Node (xml2dict ''<a><b>x</b></a>'' False)) ''a@c=v/a'' = Inl KeyError
   \<and> xpath (Node (xml2dict ''<a><b>x</b></a>'' False)) ''a''
       = Inr (Some (Node (fmap_of_list [(''b'', [Leaf ''x''])])))"
  by code_simp

section \<open>Properties of the parser\<close>

text \<open>
  Claim C8. The code replaces a self-closing \<open><tag />\<close> by \<open><tag>None</tag>\<close> in \<open>x\<close>, and
  goes on reading the value at the index \<open>i\<close> that it computed before the replacement: the
  index just behind \<open><tag />\<close>, which in the new text is two characters into \<open>None\<close>. The
  leaf read is \<open>ne\<close>, not the placeholder. A tag written \<open><br/>\<close>, without the space, is
  not replaced at all: its name is read as \<open>br/\<close>, with no child.
\<close>

theorem self_closing_leaf:
  "get_tag_value ''<br />'' 0 = (''br'', ''ne'', [])
   \<and> xml2dict ''<br />'' False = fmap_of_list [(''br'', [Leaf ''ne''])]
   \<and> xml2dict ''<a><br /></a>'' False
       = fmap_of_list [(''a'', [Node (fmap_of_list [(''br'', [Leaf ''ne''])])])]
   \<and> xml2dict ''<br/>'' False = fmap_of_list [(''br/'', [])]"
  by code_simp

section \<open>Properties of SOAP packets\<close>









section \<open>Properties of SOAP calls\<close>

text \<open>
  Claim C4. When the socket is made and the connection, the sending or the receiving raises
  an \<open>Exception\<close> (the network errors and timeouts are \<open>OSError\<close>s), \<open>_send_tcp\<close> returns the
  empty string, raises nothing and has closed the socket. When the reply holds a fault
  description at the fault path, the description is logged and the parsed reply is
  returned.
\<close>

theorem send_tcp_absorbs_errors:
  "(is_Exception e \<longrightarrow>
      send_tcp (Fails e) = \<lparr>returned = Inr Empty, logged = [], sock_closed = True\<rparr>)
   \<and> (xpath (Node (xml2dict (unescape_xml reply) True)) fault_path = Inr (Some err) \<longrightarrow>
      send_tcp (Replies reply)
        = \<lparr>returned = Inr (Parsed (xml2dict (unescape_xml reply) True)),
           logged = [err], sock_closed = True\<rparr>)"
  by (simp add: send_tcp_def)

text \<open>A reply with a fault, for the witness.\<close>

definition fault_reply :: string where
  "fault_reply =
     ''HTTP/1.1 500 Internal Server Error'' @ [CHR 0x0D, CHR 0x0A, CHR 0x0D, CHR 0x0A]
     @ ''<s:Envelope><s:Body><s:Fault><detail><UPnPError><errorDescription>Invalid Args</errorDescription></UPnPError></detail></s:Fault></s:Body></s:Envelope>''"

theorem send_tcp_absorbs_errors_witness:
  "is_Exception OSError
   \<and> send_tcp (Fails OSError) = \<lparr>returned = Inr Empty, logged = [], sock_closed = True\<rparr>
   \<and> xpath (Node (xml2dict (unescape_xml fault_reply) True)) fault_path
       = Inr (Some (Leaf ''Invalid Args''))
   \<and> send_tcp (Replies fault_reply)
       = \<lparr>returned = Inr (Parsed (xml2dict (unescape_xml fault_reply) True)),
          logged = [Leaf ''Invalid Args''], sock_closed = True\<rparr>"
proof -
  have 1: "is_Exception OSError"
    by (simp add: is_Exception_def)
  have 2: "xpath (Node (xml2dict (unescape_xml fault_reply) True)) fault_path
             = Inr (Some (Leaf ''Invalid Args''))"
    by code_simp
  show ?thesis
    using 1 2 send_tcp_absorbs_errors [of OSError fault_reply "Leaf ''Invalid Args''"] by blast
qed

section \<open>Properties of device resolution\<close>









section \<open>Properties of discovery\<close>

lemma device_eq_identity: "device_eq e d \<longleftrightarrow> identity e = identity d"
  by (auto simp: device_eq_def identity_def)

lemma identity_ssdp_version [simp]: "identity (d\<lparr>ssdp_version := v\<rparr>) = identity d"
  by (simp add: identity_def)

lemma name_matches_ssdp_version [simp]:
  "name_matches flt (d\<lparr>ssdp_version := v\<rparr>) = name_matches flt d"
  by (simp add: name_matches_def)

lemma not_in_devices:
  "list_all (\<lambda>e. \<not> device_eq e d) ds \<longleftrightarrow> identity d \<notin> set (map identity ds)"
  by (induction ds) (auto simp: device_eq_identity)

lemma round_grows:
  "\<exists>new. devices (cli_of (discover_round env flt ipf timeout ver r c)) = devices c @ new
     \<and> map snd (printed (cli_of (discover_round env flt ipf timeout ver r c)))
         = map snd (printed c) @ new"
  by (auto simp: discover_round_def Let_def split: prod.splits poll.splits sum.splits bool.splits)

lemma round_distinct:
  "distinct (map identity (devices c)) \<Longrightarrow>
   distinct (map identity (devices (cli_of (discover_round env flt ipf timeout ver r c))))"
  by (auto simp: discover_round_def Let_def not_in_devices
           split: prod.splits poll.splits sum.splits bool.splits)

lemma loop_unfold:
  "discover_loop env flt ipf timeout ver (r # rs) c = (st, c') \<Longrightarrow>
   (\<exists>c1. discover_round env flt ipf timeout ver r c = Continue c1
         \<and> discover_loop env flt ipf timeout ver rs c1 = (st, c'))
   \<or> c' = cli_of (discover_round env flt ipf timeout ver r c)"
  by (auto split: flow.splits)

lemma loop_grows:
  "discover_loop env flt ipf timeout ver rs c = (st, c') \<Longrightarrow>
   \<exists>new. devices c' = devices c @ new \<and> map snd (printed c') = map snd (printed c) @ new"
proof (induction rs arbitrary: c)
  case Nil
  then show ?case by simp
next
  case (Cons r rs)
  obtain n1 where n1: "devices (cli_of (discover_round env flt ipf timeout ver r c)) = devices c @ n1"
    "map snd (printed (cli_of (discover_round env flt ipf timeout ver r c))) = map snd (printed c) @ n1"
    using round_grows by blast
  from loop_unfold [OF Cons.prems] show ?case
  proof
    assume "\<exists>c1. discover_round env flt ipf timeout ver r c = Continue c1
         \<and> discover_loop env flt ipf timeout ver rs c1 = (st, c')"
    then obtain c1 where c1: "discover_round env flt ipf timeout ver r c = Continue c1"
      "discover_loop env flt ipf timeout ver rs c1 = (st, c')" by blast
    from Cons.IH [OF c1(2)] obtain n2 where
      "devices c' = devices c1 @ n2" "map snd (printed c') = map snd (printed c1) @ n2" by blast
    then show ?thesis using n1 c1(1) by simp
  next
    assume "c' = cli_of (discover_round env flt ipf timeout ver r c)"
    then show ?thesis using n1 by simp
  qed
qed

lemma loop_distinct:
  "discover_loop env flt ipf timeout ver rs c = (st, c') \<Longrightarrow>
   distinct (map identity (devices c)) \<Longrightarrow> distinct (map identity (devices c'))"
proof (induction rs arbitrary: c)
  case Nil
  then show ?case by simp
next
  case (Cons r rs)
  have d1: "distinct (map identity (devices (cli_of (discover_round env flt ipf timeout ver r c))))"
    using Cons.prems(2) by (rule round_distinct)
  from loop_unfold [OF Cons.prems(1)] show ?case
  proof
    assume "\<exists>c1. discover_round env flt ipf timeout ver r c = Continue c1
         \<and> discover_loop env flt ipf timeout ver rs c1 = (st, c')"
    then obtain c1 where c1: "discover_round env flt ipf timeout ver r c = Continue c1"
      "discover_loop env flt ipf timeout ver rs c1 = (st, c')" by blast
    have "distinct (map identity (devices c1))" using d1 c1(1) by simp
    with c1(2) show ?thesis by (rule Cons.IH)
  next
    assume "c' = cli_of (discover_round env flt ipf timeout ver r c)"
    then show ?thesis using d1 by simp
  qed
qed

lemma round_accepts:
  assumes "\<not> timeout < t" "ipf = [] \<or> addr = ipf" "DlnapDevice env data addr = Inr d"
    and "name_matches flt d = Inr True"
  shows "identity d \<in> set (map identity (devices (cli_of
           (discover_round env flt ipf timeout ver (t, Readable (Inr (data, addr))) c))))"
  using assms
  by (auto simp: discover_round_def Let_def not_in_devices split: sum.splits bool.splits)

lemma count_identity:
  "distinct (map identity ds) \<Longrightarrow> identity d \<in> set (map identity ds) \<Longrightarrow>
   length (filter (\<lambda>e. device_eq e d) ds) = 1"
proof (induction ds)
  case Nil
  then show ?case by simp
next
  case (Cons a ds)
  show ?case
  proof (cases "identity a = identity d")
    case True
    then have "identity d \<notin> set (map identity ds)" using Cons.prems(1) by simp
    then have "list_all (\<lambda>e. \<not> device_eq e d) ds"
      by (simp add: not_in_devices)
    then have "filter (\<lambda>e. device_eq e d) ds = []"
      by (simp add: filter_empty_conv list_all_iff)
    then show ?thesis using True by (simp add: device_eq_identity)
  next
    case False
    then show ?thesis using Cons by (auto simp: device_eq_identity)
  qed
qed

text \<open>
  Claim C6, as amended. \<open>__eq__\<close> compares the name and the ip address and nothing else. A
  list of devices that holds no two devices of one identity holds none after any run of
  the discovery loop either. And when a round reads a datagram that the filters accept
  (the ip filter is empty or is the sender, and the name filter matches the name of the
  device that the datagram resolves to), the list holds exactly one device of its identity
  from then on, however many datagrams of that identity follow.
\<close>

theorem one_device_per_identity:
  "(device_eq e d \<longleftrightarrow> (name e, ip e) = (name d, ip d))
   \<and> (discover_loop env flt ipf timeout ver rs c = (st, c') \<and> distinct (map identity (devices c))
        \<longrightarrow> distinct (map identity (devices c')))
   \<and> (discover_loop env flt ipf timeout ver ((t, Readable (Inr (data, addr))) # rs) c = (st, c')
        \<and> distinct (map identity (devices c))
        \<and> \<not> timeout < t \<and> (ipf = [] \<or> addr = ipf) \<and> DlnapDevice env data addr = Inr d
        \<and> name_matches flt d = Inr True
        \<longrightarrow> length (filter (\<lambda>e. device_eq e d) (devices c')) = 1)"
proof (intro conjI impI; (elim conjE)?)
  show "device_eq e d \<longleftrightarrow> (name e, ip e) = (name d, ip d)"
    by (auto simp: device_eq_def)
next
  assume "discover_loop env flt ipf timeout ver rs c = (st, c')" "distinct (map identity (devices c))"
  then show "distinct (map identity (devices c'))" by (rule loop_distinct)
next
  assume a: "discover_loop env flt ipf timeout ver ((t, Readable (Inr (data, addr))) # rs) c = (st, c')"
    "distinct (map identity (devices c))" "\<not> timeout < t" "ipf = [] \<or> addr = ipf"
    "DlnapDevice env data addr = Inr d" "name_matches flt d = Inr True"
  let ?c1 = "cli_of (discover_round env flt ipf timeout ver (t, Readable (Inr (data, addr))) c)"
  have m: "identity d \<in> set (map identity (devices ?c1))"
    using a(3-6) by (rule round_accepts)
  have dist: "distinct (map identity (devices c'))"
    using a(1,2) by (rule loop_distinct)
  have "identity d \<in> set (map identity (devices c'))"
    using loop_unfold [OF a(1)]
  proof
    assume "\<exists>c1. discover_round env flt ipf timeout ver (t, Readable (Inr (data, addr))) c = Continue c1
         \<and> discover_loop env flt ipf timeout ver rs c1 = (st, c')"
    then obtain c1 where c1: "discover_round env flt ipf timeout ver (t, Readable (Inr (data, addr))) c = Continue c1"
      "discover_loop env flt ipf timeout ver rs c1 = (st, c')" by blast
    from loop_grows [OF c1(2)] obtain new where "devices c' = devices c1 @ new" by blast
    then show ?thesis using m c1(1) by auto
  next
    assume "c' = ?c1"
    then show ?thesis using m by simp
  qed
  with dist show "length (filter (\<lambda>e. device_eq e d) (devices c')) = 1"
    by (rule count_identity)
qed

theorem one_device_per_identity_witness:
  "discover_loop
     (example_resolver [''http://10.0.0.5:8080/d.xml''] (\<lambda>loc. Inr tv_description)) [] [] 10 1
     ((0, Readable (Inr (''raw'', ''10.0.0.5''))) # [(1, Readable (Inr (''raw'', ''10.0.0.5'')))])
     \<lparr>devices = [], printed = []\<rparr>
     = (Running, \<lparr>devices = [tv_device], printed = [(0, tv_device)]\<rparr>)
   \<and> distinct (map identity (devices \<lparr>devices = [], printed = []\<rparr>))
   \<and> \<not> (10 :: real) < 0
   \<and> DlnapDevice
        (example_resolver [''http://10.0.0.5:8080/d.xml''] (\<lambda>loc. Inr tv_description))
        ''raw'' ''10.0.0.5'' = Inr tv_device
   \<and> name_matches [] tv_device = Inr True
   \<and> distinct (map identity (devices \<lparr>devices = [tv_device], printed = [(0, tv_device)]\<rparr>))
   \<and> length (filter (\<lambda>e. device_eq e tv_device)
        (devices \<lparr>devices = [tv_device], printed = [(0, tv_device)]\<rparr>)) = 1"
proof -
  let ?env = "example_resolver [''http://10.0.0.5:8080/d.xml''] (\<lambda>loc. Inr tv_description)"
  let ?c0 = "\<lparr>devices = [], printed = []\<rparr>"
  let ?c1 = "\<lparr>devices = [tv_device], printed = [(0, tv_device)]\<rparr>"
  let ?r = "Readable (Inr (''raw'', ''10.0.0.5''))"
  have 1: "discover_loop ?env [] [] 10 1 ((0, ?r) # [(1, ?r)]) ?c0 = (Running, ?c1)"
    using loop_tv_twice by simp
  have 2: "distinct (map identity (devices ?c0))"
    by simp
  have 3: "\<not> (10 :: real) < 0"
    by simp
  note inst = one_device_per_identity
      [where env = ?env and flt = "[]" and ipf = "[]" and timeout = 10 and ver = 1
         and rs = "[(1, ?r)]" and c = ?c0 and st = Running and c' = ?c1 and t = 0
         and data = "''raw''" and addr = "''10.0.0.5''" and d = tv_device and e = tv_device]
  have 4: "length (filter (\<lambda>e. device_eq e tv_device) (devices ?c1)) = 1"
    using inst 1 2 3 DlnapDevice_tv name_matches_tv(1) by blast
  have 5: "distinct (map identity (devices ?c1))"
    by simp
  show ?thesis
    using 1 2 3 4 5 DlnapDevice_tv name_matches_tv(1) by blast
qed

text \<open>
  The claim as it was stated has one device in the list for any two datagrams of one
  identity. Two datagrams that resolve to the device named \<open>TV\<close> leave the list empty when
  the name filter is \<open>x\<close>.
\<close>

theorem filtered_identity_counterexample:
  "DlnapDevice
     (example_resolver [''http://10.0.0.5:8080/d.xml''] (\<lambda>loc. Inr tv_description))
     ''raw'' ''10.0.0.5'' = Inr tv_device
   \<and> discover_loop
        (example_resolver [''http://10.0.0.5:8080/d.xml''] (\<lambda>loc. Inr tv_description)) ''x'' [] 10 1
        [(0, Readable (Inr (''raw'', ''10.0.0.5''))), (1, Readable (Inr (''raw'', ''10.0.0.5'')))]
        \<lparr>devices = [], printed = []\<rparr>
      = (Running, \<lparr>devices = [], printed = []\<rparr>)
   \<and> length (filter (\<lambda>e. device_eq e tv_device) (devices \<lparr>devices = [], printed = []\<rparr>)) = 0"
  using DlnapDevice_tv loop_tv_filtered by simp




lemma round_exceptional:
  "\<not> timeout < t \<Longrightarrow>
   discover_round env flt ipf timeout ver (t, Exceptional) c
     = Raise (Exception ''Getting response failed'') c"
  by (simp add: discover_round_def)







text \<open>
  Claim C3. With a timeout of 1 and a first round at the clock value 0: when the socket is
  in the exceptional set, or \<open>select\<close> raises an error, the exception leaves \<open>discover\<close> and
  the socket has not been closed. (A \<open>KeyboardInterrupt\<close> and the timeout end the loop
  normally, and the socket is closed.)
\<close>

theorem discover_error_path_leaves_socket_open:
  "discover env flt ipf 1 ver None ((0, Exceptional) # rs) c
     = (Raised (Exception ''Getting response failed''), c, False)
   \<and> discover env flt ipf 1 ver None ((0, SelectRaises OSError) # rs) c = (Raised OSError, c, False)
   \<and> discover env flt ipf 1 ver None ((0, SelectRaises KeyboardInterrupt) # rs) c = (Returned, c, True)
   \<and> discover env flt ipf 1 ver None ((2, ev) # rs) c = (Returned, c, True)"
  by (simp add: discover_def discover_body_def discover_round_def)

end
